theory Spec2Isabelle
  imports Main "HOL-Library.Sublist"
begin

section \<open>Flash-message queue (flask/helpers.py, flash and get\_flashed\_messages)\<close>

text \<open>
  A flash entry is the pair \<open>(category, message)\<close>.  The session is a dictionary from keys
  to stored sequences; only the reserved key \<open>_flashes\<close> is used by the two functions.
  \<open>request_ctx_flashes\<close> is the attribute \<open>request_ctx.flashes\<close>, where \<open>None\<close> means that
  nothing has been read in the current request.  \<open>message_flashed\<close> is the log of what was
  sent on the signal of that name: the sender (the application object), the message and
  the category of each notification.
\<close>

type_synonym flash_entry = "string \<times> string"

record 'app state =
  session :: "string \<rightharpoonup> flash_entry list"
  request_ctx_flashes :: "flash_entry list option"
  current_app :: 'app
  message_flashed :: "('app \<times> string \<times> string) list"

text \<open>
  \<^verbatim>\<open>
  flashes = session.get("_flashes", [])
  flashes.append((category, message))
  session["_flashes"] = flashes
  app = current_app._get_current_object()
  message_flashed.send(app, _async_wrapper=app.ensure_sync,
                       message=message, category=category)
  \<close>
\<close>

definition flash :: "string \<Rightarrow> string \<Rightarrow> 'app state \<Rightarrow> 'app state" where
  "flash message category st =
     (let flashes = (case session st ''_flashes'' of None \<Rightarrow> [] | Some fs \<Rightarrow> fs);
          flashes = flashes @ [(category, message)];
          st = st\<lparr>session := (session st)(''_flashes'' \<mapsto> flashes)\<rparr>;
          app = current_app st
      in st\<lparr>message_flashed := message_flashed st @ [(app, message, category)]\<rparr>)"

text \<open>
  The return value of \<open>get_flashed_messages\<close> is a list of message strings or a list of
  pairs, depending on \<open>with_categories\<close>.
\<close>

datatype flashed = Messages "string list" | Pairs "flash_entry list"

text \<open>
  The parameter \<open>category_filter\<close> is declared as \<open>t.Iterable[str]\<close>, and the function uses
  it in two ways, \<open>if category_filter\<close> and \<open>f[0] in category_filter\<close>.  What these do
  depends on the kind of iterable:
  \<^item> a container of categories (a list, a tuple such as the default \<open>()\<close>, a set) is true
    when it is not empty, and \<open>in\<close> is membership;
  \<^item> a string is true when it is not empty, and \<open>in\<close> asks whether the category occurs in
    it as a substring;
  \<^item> a one-pass iterator, given by the items it has yet to yield, is always true, and \<open>in\<close>
    takes items from it up to and including the first one equal to the category, or all
    of them when there is none.
\<close>

datatype category_filter =
    Container "string list"
  | Str string
  | Iterator "string list"

fun truthy :: "category_filter \<Rightarrow> bool" where
  "truthy (Container xs) = (xs \<noteq> [])"
| "truthy (Str s) = (s \<noteq> [])"
| "truthy (Iterator rest) = True"

text \<open>\<open>x in category_filter\<close>: the answer, and the filter as it is afterwards.\<close>

fun contains :: "string \<Rightarrow> category_filter \<Rightarrow> bool \<times> category_filter" where
  "contains x (Container xs) = (x \<in> set xs, Container xs)"
| "contains x (Str s) = (sublist x s, Str s)"
| "contains x (Iterator rest) =
     (case dropWhile (\<lambda>y. y \<noteq> x) rest of
        [] \<Rightarrow> (False, Iterator [])
      | _ # rest' \<Rightarrow> (True, Iterator rest'))"

text \<open>\<open>list(filter(lambda f: f[0] in category_filter, flashes))\<close>\<close>

fun filter_in :: "category_filter \<Rightarrow> flash_entry list \<Rightarrow> flash_entry list" where
  "filter_in category_filter [] = []"
| "filter_in category_filter (f # flashes) =
     (case contains (fst f) category_filter of
        (True, category_filter') \<Rightarrow> f # filter_in category_filter' flashes
      | (False, category_filter') \<Rightarrow> filter_in category_filter' flashes)"

text \<open>
  \<^verbatim>\<open>
  flashes = request_ctx.flashes
  if flashes is None:
      flashes = session.pop("_flashes") if "_flashes" in session else []
      request_ctx.flashes = flashes
  if category_filter:
      flashes = list(filter(lambda f: f[0] in category_filter, flashes))
  if not with_categories:
      return [x[1] for x in flashes]
  return flashes
  \<close>
\<close>

definition get_flashed_messages ::
  "bool \<Rightarrow> category_filter \<Rightarrow> 'app state \<Rightarrow> flashed \<times> 'app state" where
  "get_flashed_messages with_categories category_filter st =
     (let (flashes, st) =
            (case request_ctx_flashes st of
               None \<Rightarrow>
                 (let (flashes, st) =
                        (case session st ''_flashes'' of
                           Some fs \<Rightarrow> (fs, st\<lparr>session := (session st)(''_flashes'' := None)\<rparr>)
                         | None \<Rightarrow> ([], st))
                  in (flashes, st\<lparr>request_ctx_flashes := Some flashes\<rparr>))
             | Some fs \<Rightarrow> (fs, st));
          flashes = (if truthy category_filter
                     then filter_in category_filter flashes
                     else flashes)
      in if \<not> with_categories then (Messages (map snd flashes), st)
         else (Pairs flashes, st))"

text \<open>
  Modelled from the spec: the start of a request, which is not in this file.  The session
  lives on from one request to the next; every request gets a new request context, whose
  per-request cache of flash entries starts out unread.
\<close>

definition new_request :: "'app state \<Rightarrow> 'app state" where
  "new_request st = st\<lparr>request_ctx_flashes := None\<rparr>"

text \<open>
  The calls of \<open>flash\<close> made by one request, in order, and the calls made by a sequence of
  requests, each starting with a new context; \<open>stored\<close> is the sequence under the reserved
  key, empty when the key is absent.
\<close>

definition flash_each :: "flash_entry list \<Rightarrow> 'app state \<Rightarrow> 'app state" where
  "flash_each es st = foldl (\<lambda>s (category, message). flash message category s) st es"

definition flash_requests :: "flash_entry list list \<Rightarrow> 'app state \<Rightarrow> 'app state" where
  "flash_requests ess st = foldl (\<lambda>s es. flash_each es (new_request s)) st ess"

definition stored :: "'app state \<Rightarrow> flash_entry list" where
  "stored st = (case session st ''_flashes'' of None \<Rightarrow> [] | Some fs \<Rightarrow> fs)"

text \<open>
  The sequence that a read in the current request works on: the cache once something has
  been read, and before that what the session stores.
\<close>

definition readable :: "'app state \<Rightarrow> flash_entry list" where
  "readable st = (case request_ctx_flashes st of None \<Rightarrow> stored st | Some fs \<Rightarrow> fs)"


section \<open>Environment flags (get\_debug\_flag, get\_load\_dotenv)\<close>

text \<open>
  \<open>str.lower\<close> on the letters that matter here: an upper-case ASCII letter goes to its
  lower-case letter, every other character stays.
\<close>

definition lower_char :: "char \<Rightarrow> char" where
  "lower_char c =
     (case map_of (zip ''ABCDEFGHIJKLMNOPQRSTUVWXYZ'' ''abcdefghijklmnopqrstuvwxyz'') c of
        Some d \<Rightarrow> d
      | None \<Rightarrow> c)"

definition lower :: "string \<Rightarrow> string" where
  "lower s = map lower_char s"

text \<open>
  \<open>os.environ\<close> is a dictionary from names to values.
  \<^verbatim>\<open>
  val = os.environ.get("FLASK_DEBUG")
  return bool(val and val.lower() not in {"0", "false", "no"})
  \<close>
  \<open>val and e\<close> is \<open>val\<close> itself when \<open>val\<close> is \<open>None\<close> or the empty string, both of which
  \<open>bool\<close> turns into \<open>False\<close>.
\<close>

definition get_debug_flag :: "(string \<rightharpoonup> string) \<Rightarrow> bool" where
  "get_debug_flag environ =
     (case environ ''FLASK_DEBUG'' of
        None \<Rightarrow> False
      | Some val \<Rightarrow> if val = [] then False else lower val \<notin> set [''0'', ''false'', ''no''])"

text \<open>
  \<^verbatim>\<open>
  val = os.environ.get("FLASK_SKIP_DOTENV")
  if not val:
      return default
  return val.lower() in ("0", "false", "no")
  \<close>
  The parameter \<open>default\<close> is \<open>dflt\<close> here.
\<close>

definition get_load_dotenv :: "bool \<Rightarrow> (string \<rightharpoonup> string) \<Rightarrow> bool" where
  "get_load_dotenv dflt environ =
     (case environ ''FLASK_SKIP_DOTENV'' of
        None \<Rightarrow> dflt
      | Some val \<Rightarrow> if val = [] then dflt else lower val \<in> set [''0'', ''false'', ''no''])"

section \<open>Exceptions\<close>

text \<open>
  The exceptions that the modelled functions raise or let through.  An exception of a
  subclass stands as its base class (\<open>ModuleNotFoundError\<close> as \<open>ImportError\<close>).
\<close>

datatype exn =
    RuntimeError string
  | ImportError string
  | ValueError string
  | KeyError string
  | StopIteration
  | GeneratorExit
  | Exception string

section \<open>Root-path discovery (get\_root\_path)\<close>

text \<open>
  What the function reads of a module is its \<open>__file__\<close> attribute: absent, \<open>None\<close>, or a
  path.  Of a loader it reads whether it has \<open>get_filename\<close>, and calls it.
\<close>

datatype file_attr = NoAttr | AttrNone | AttrPath string

datatype loader = Loader (get_filename: "(string \<Rightarrow> exn + string) option")

text \<open>
  The interpreter and the operating system as the function sees them:
  \<open>sys.modules\<close>, \<open>importlib.util.find_spec\<close> (it raises, returns \<open>None\<close>, or returns a spec
  whose \<open>loader\<close> may be \<open>None\<close>), \<open>__import__\<close> (it raises, or leaves a new \<open>sys.modules\<close>),
  \<open>os.getcwd\<close>, \<open>os.path.abspath\<close> and \<open>os.path.dirname\<close>.  The last three belong to the
  standard library and are parameters here.
\<close>

record interp =
  sys_modules :: "string \<rightharpoonup> file_attr"
  find_spec :: "string \<Rightarrow> exn + loader option option"
  import_module :: "string \<Rightarrow> exn + (string \<rightharpoonup> file_attr)"
  getcwd :: string
  abspath :: "string \<Rightarrow> string"
  dirname :: "string \<Rightarrow> string"

text \<open>\<open>hasattr(mod, "__file__") and mod.__file__ is not None\<close>, and \<open>getattr(mod, "__file__", None)\<close>.\<close>

definition module_file :: "file_attr \<Rightarrow> string option" where
  "module_file m = (case m of AttrPath f \<Rightarrow> Some f | _ \<Rightarrow> None)"

text \<open>The message of the error for a namespace package; \<open>!r\<close> puts the name in quotes.\<close>

definition no_root_path :: "string \<Rightarrow> string" where
  "no_root_path import_name =
     ''No root path can be found for the provided module '' @ [CHR 0x27] @ import_name
     @ [CHR 0x27] @ ''. This can happen because the module''
     @ '' came from an import hook that does not provide file''
     @ '' name information or because it'' @ [CHR 0x27] @ ''s a namespace package.''
     @ '' In this case the root path needs to be explicitly''
     @ '' provided.''"

text \<open>
  \<^verbatim>\<open>
  mod = sys.modules.get(import_name)
  if mod is not None and hasattr(mod, "__file__") and mod.__file__ is not None:
      return os.path.dirname(os.path.abspath(mod.__file__))
  try:
      spec = importlib.util.find_spec(import_name)
      if spec is None:
          raise ValueError
  except (ImportError, ValueError):
      loader = None
  else:
      loader = spec.loader
  if loader is None:
      return os.getcwd()
  if hasattr(loader, "get_filename"):
      filepath = loader.get_filename(import_name)
  else:
      __import__(import_name)
      mod = sys.modules[import_name]
      filepath = getattr(mod, "__file__", None)
      if filepath is None:
          raise RuntimeError(...)
  return os.path.dirname(os.path.abspath(filepath))
  \<close>
\<close>

definition find_loader :: "interp \<Rightarrow> string \<Rightarrow> exn + loader option" where
  "find_loader env import_name =
     (case find_spec env import_name of
        Inl (ImportError _) \<Rightarrow> Inr None
      | Inl (ValueError _) \<Rightarrow> Inr None
      | Inl e \<Rightarrow> Inl e
      | Inr None \<Rightarrow> Inr None
      | Inr (Some spec_loader) \<Rightarrow> Inr spec_loader)"

definition get_root_path :: "interp \<Rightarrow> string \<Rightarrow> exn + string" where
  "get_root_path env import_name =
     (case (case sys_modules env import_name of None \<Rightarrow> None | Some m \<Rightarrow> module_file m) of
        Some file \<Rightarrow> Inr (dirname env (abspath env file))
      | None \<Rightarrow>
          (case find_loader env import_name of
             Inl e \<Rightarrow> Inl e
           | Inr None \<Rightarrow> Inr (getcwd env)
           | Inr (Some loader) \<Rightarrow>
               (case get_filename loader of
                  Some loader_get_filename \<Rightarrow>
                    (case loader_get_filename import_name of
                       Inl e \<Rightarrow> Inl e
                     | Inr filepath \<Rightarrow> Inr (dirname env (abspath env filepath)))
                | None \<Rightarrow>
                    (case import_module env import_name of
                       Inl e \<Rightarrow> Inl e
                     | Inr modules \<Rightarrow>
                         (case modules import_name of
                            None \<Rightarrow> Inl (KeyError import_name)
                          | Some m \<Rightarrow>
                              (case module_file m of
                                 None \<Rightarrow> Inl (RuntimeError (no_root_path import_name))
                               | Some filepath \<Rightarrow>
                                   Inr (dirname env (abspath env filepath))))))))"


section \<open>Context-preserving stream wrapper (stream\_with\_context)\<close>

text \<open>
  Modelled from the spec: the ambient request context, which lives in other files.  A
  request context is pushed onto a stack when it is entered and popped when it is left;
  \<open>_cv_request.get(None)\<close> is the top of the stack, or \<open>None\<close> when no context is active.
  \<open>close_calls\<close> counts the invocations of the underlying sequence's \<open>close\<close>.
\<close>

record 'c world =
  cv_request :: "'c list"
  close_calls :: nat

definition cv_request_get :: "'c world \<Rightarrow> 'c option" where
  "cv_request_get w = (case cv_request w of [] \<Rightarrow> None | ctx # _ \<Rightarrow> Some ctx)"

definition ctx_enter :: "'c \<Rightarrow> 'c world \<Rightarrow> 'c world" where
  "ctx_enter ctx w = w\<lparr>cv_request := ctx # cv_request w\<rparr>"

definition ctx_exit :: "'c \<Rightarrow> 'c world \<Rightarrow> 'c world" where
  "ctx_exit ctx w = w\<lparr>cv_request := tl (cv_request w)\<rparr>"

text \<open>
  One step of an iterator: it yields an item, it is exhausted (\<open>StopIteration\<close>), or it
  raises.  Each outcome carries the iterator's next state.
\<close>

datatype ('a, 'g) step = Yield 'a 'g | Return 'g | Raise exn 'g

text \<open>
  The underlying sequence \<open>gen\<close> is an iterator object with state \<open>'g\<close>.  Its \<open>__next__\<close>
  may read the ambient request context; \<open>it_close g\<close> is \<open>None\<close> when the object has no
  attribute \<open>close\<close>, and otherwise the result of calling it: an exception or none, and
  the next state.
\<close>

record ('a, 'c, 'g) iterator =
  it_next :: "'c option \<Rightarrow> 'g \<Rightarrow> ('a, 'g) step"
  it_close :: "'g \<Rightarrow> (exn option \<times> 'g) option"

text \<open>
  The generator object made by the inner function \<open>generator\<close>: not started, suspended at
  \<open>yield None\<close>, suspended inside \<open>yield from gen\<close>, or finished.  The suspended states hold
  the captured context \<open>ctx\<close> and the underlying iterator.
\<close>

datatype ('c, 'g) gen_state =
    Unstarted 'g
  | AtSentinel 'c 'g
  | Delegating 'c 'g
  | Finished

definition generator :: "'g \<Rightarrow> ('c, 'g) gen_state" where
  "generator gen = Unstarted gen"

definition no_context :: string where
  "no_context = [CHR 0x27] @ ''stream_with_context'' @ [CHR 0x27]
     @ '' can only be used when a request''
     @ '' context is active, such as in a view function.''"

text \<open>\<open>if hasattr(gen, "close"): gen.close()\<close>\<close>

definition call_close ::
  "('a, 'c, 'g) iterator \<Rightarrow> 'g \<Rightarrow> 'c world \<Rightarrow> exn option \<times> 'g \<times> 'c world" where
  "call_close ops gen w =
     (case it_close ops gen of
        None \<Rightarrow> (None, gen, w)
      | Some (r, gen') \<Rightarrow> (r, gen', w\<lparr>close_calls := Suc (close_calls w)\<rparr>))"

text \<open>
  An exception that leaves the body of a generator; a \<open>StopIteration\<close> is turned into a
  \<open>RuntimeError\<close> there.
\<close>

definition leave_body :: "exn \<Rightarrow> exn" where
  "leave_body e = (if e = StopIteration then RuntimeError ''generator raised StopIteration'' else e)"

text \<open>
  \<^verbatim>\<open>
  with ctx:
      yield None
      try:
          yield from gen
      finally:
          if hasattr(gen, "close"):
              gen.close()
  \<close>
  \<open>resume\<close> is the body from the point where \<open>yield from gen\<close> asks \<open>gen\<close> for its next item:
  an item is passed on; when \<open>gen\<close> is exhausted (\<open>Return\<close>, or a \<open>StopIteration\<close> written as
  an exception) the delegation ends, and when it raises anything else the exception is in
  flight.  \<open>leave_try\<close> is what follows in both cases: the \<open>finally\<close> block runs, an exception
  raised by \<open>close\<close> replaces the one in flight, and the \<open>with\<close> block is left.
\<close>

definition leave_try ::
  "('a, 'c, 'g) iterator \<Rightarrow> 'c \<Rightarrow> 'g \<Rightarrow> exn option \<Rightarrow> 'c world
     \<Rightarrow> ('a option, ('c, 'g) gen_state) step \<times> 'c world" where
  "leave_try ops ctx gen exc w =
     (let (r, gen, w) = call_close ops gen w;
          exc = (case r of None \<Rightarrow> exc | Some e \<Rightarrow> Some e);
          w = ctx_exit ctx w
      in case exc of
           None \<Rightarrow> (Return Finished, w)
         | Some e \<Rightarrow> (Raise (leave_body e) Finished, w))"

definition resume ::
  "('a, 'c, 'g) iterator \<Rightarrow> 'c \<Rightarrow> 'g \<Rightarrow> 'c world
     \<Rightarrow> ('a option, ('c, 'g) gen_state) step \<times> 'c world" where
  "resume ops ctx gen w =
     (case it_next ops (cv_request_get w) gen of
        Yield x gen' \<Rightarrow> (Yield (Some x) (Delegating ctx gen'), w)
      | Return gen' \<Rightarrow> leave_try ops ctx gen' None w
      | Raise e gen' \<Rightarrow>
          leave_try ops ctx gen' (if e = StopIteration then None else Some e) w)"

text \<open>
  \<open>next\<close> on the generator object.  The first call runs
  \<^verbatim>\<open>
  ctx = _cv_request.get(None)
  if ctx is None:
      raise RuntimeError(...)
  with ctx:
      yield None
  \<close>
  up to the sentinel; the sentinel is the item \<open>None\<close>, a real item \<open>x\<close> is \<open>Some x\<close>.
\<close>

definition generator_next ::
  "('a, 'c, 'g) iterator \<Rightarrow> ('c, 'g) gen_state \<Rightarrow> 'c world
     \<Rightarrow> ('a option, ('c, 'g) gen_state) step \<times> 'c world" where
  "generator_next ops wrapped_g w =
     (case wrapped_g of
        Unstarted gen \<Rightarrow>
          (case cv_request_get w of
             None \<Rightarrow> (Raise (RuntimeError no_context) Finished, w)
           | Some ctx \<Rightarrow> (Yield None (AtSentinel ctx gen), ctx_enter ctx w))
      | AtSentinel ctx gen \<Rightarrow> resume ops ctx gen w
      | Delegating ctx gen \<Rightarrow> resume ops ctx gen w
      | Finished \<Rightarrow> (Return Finished, w))"

text \<open>
  \<open>close\<close> on the generator object, which is how a consumer abandons it: \<open>GeneratorExit\<close> is
  raised where the body is suspended.  At \<open>yield None\<close> only the \<open>with\<close> block is left.
  Inside \<open>yield from gen\<close> the delegation first closes \<open>gen\<close> if it has \<open>close\<close>, then raises
  \<open>GeneratorExit\<close> in the body, so the \<open>finally\<close> block runs, and then the \<open>with\<close> block is
  left.  The call returns normally when the exception that leaves the body is
  \<open>GeneratorExit\<close>, and raises it otherwise.
\<close>

definition generator_close ::
  "('a, 'c, 'g) iterator \<Rightarrow> ('c, 'g) gen_state \<Rightarrow> 'c world
     \<Rightarrow> exn option \<times> ('c, 'g) gen_state \<times> 'c world" where
  "generator_close ops wrapped_g w =
     (case wrapped_g of
        Unstarted gen \<Rightarrow> (None, Finished, w)
      | AtSentinel ctx gen \<Rightarrow> (None, Finished, ctx_exit ctx w)
      | Delegating ctx gen \<Rightarrow>
          (let (r, gen, w) = call_close ops gen w;
               exc = (case r of None \<Rightarrow> GeneratorExit | Some e \<Rightarrow> e);
               (r, gen, w) = call_close ops gen w;
               exc = leave_body (case r of None \<Rightarrow> exc | Some e \<Rightarrow> e);
               w = ctx_exit ctx w
           in (if exc = GeneratorExit then None else Some exc, Finished, w))
      | Finished \<Rightarrow> (None, Finished, w))"

text \<open>
  The argument of \<open>stream_with_context\<close>: an object on which \<open>iter\<close> succeeds, given by the
  iterator it returns, or a function (with its name) that returns such an iterator or
  raises.  The result is the wrapped generator object, or a new function.
\<close>

datatype ('x, 'g) wrappable =
    Iterable 'g
  | Callable string "'x \<Rightarrow> exn + 'g"

datatype ('x, 'c, 'g) wrapped =
    Wrapped "('c, 'g) gen_state"
  | Decorator string "'x \<Rightarrow> 'c world \<Rightarrow> (exn + ('x, 'c, 'g) wrapped) \<times> 'c world"

text \<open>
  \<^verbatim>\<open>
  try:
      gen = iter(generator_or_function)
  except TypeError:
      def decorator(*args, **kwargs):
          gen = generator_or_function(*args, **kwargs)
          return stream_with_context(gen)
      return update_wrapper(decorator, generator_or_function)
  def generator(): ...
  wrapped_g = generator()
  next(wrapped_g)
  return wrapped_g
  \<close>
  \<open>update_wrapper\<close> gives the new function the name of the original one.
\<close>

function stream_with_context ::
  "('a, 'c, 'g) iterator \<Rightarrow> ('x, 'g) wrappable \<Rightarrow> 'c world
     \<Rightarrow> (exn + ('x, 'c, 'g) wrapped) \<times> 'c world" where
  "stream_with_context ops (Iterable gen) w =
     (let wrapped_g = generator gen
      in case generator_next ops wrapped_g w of
           (Yield _ wrapped_g, w) \<Rightarrow> (Inr (Wrapped wrapped_g), w)
         | (Return _, w) \<Rightarrow> (Inl StopIteration, w)
         | (Raise e _, w) \<Rightarrow> (Inl e, w))"
| "stream_with_context ops (Callable name generator_or_function) w =
     (Inr (Decorator name
        (\<lambda>args w. case generator_or_function args of
                     Inl e \<Rightarrow> (Inl e, w)
                   | Inr gen \<Rightarrow> stream_with_context ops (Iterable gen) w)), w)"
  by pat_completeness auto
termination
  by (relation "measure (\<lambda>(ops, x, w). case x of Iterable _ \<Rightarrow> 0 | Callable _ _ \<Rightarrow> Suc 0)") auto

text \<open>
  A consumer that asks the wrapped sequence for its next item at most \<open>n\<close> times, and what
  it observes; the same for the underlying sequence iterated directly, where \<open>ambient\<close> is
  the request context active meanwhile.
\<close>

datatype 'a observation = Item 'a | Exhausted | Failed exn

fun consume ::
  "('a, 'c, 'g) iterator \<Rightarrow> nat \<Rightarrow> ('c, 'g) gen_state \<Rightarrow> 'c world
     \<Rightarrow> 'a option observation list \<times> ('c, 'g) gen_state \<times> 'c world" where
  "consume ops 0 wrapped_g w = ([], wrapped_g, w)"
| "consume ops (Suc n) wrapped_g w =
     (case generator_next ops wrapped_g w of
        (Yield v wrapped_g', w') \<Rightarrow>
          (let (obs, wrapped_g'', w'') = consume ops n wrapped_g' w'
           in (Item v # obs, wrapped_g'', w''))
      | (Return wrapped_g', w') \<Rightarrow> ([Exhausted], wrapped_g', w')
      | (Raise e wrapped_g', w') \<Rightarrow> ([Failed e], wrapped_g', w'))"

fun consume_underlying ::
  "('a, 'c, 'g) iterator \<Rightarrow> nat \<Rightarrow> 'c option \<Rightarrow> 'g \<Rightarrow> 'a observation list" where
  "consume_underlying ops 0 ambient gen = []"
| "consume_underlying ops (Suc n) ambient gen =
     (case it_next ops ambient gen of
        Yield x gen' \<Rightarrow> Item x # consume_underlying ops n ambient gen'
      | Return gen' \<Rightarrow> [Exhausted]
      | Raise e gen' \<Rightarrow> [Failed e])"

definition items_of :: "'a observation list \<Rightarrow> 'a list" where
  "items_of obs = concat (map (\<lambda>ob. case ob of Item x \<Rightarrow> [x] | _ \<Rightarrow> []) obs)"

text \<open>
  An underlying sequence for the examples: an iterator over a given list of items that
  then is exhausted or raises a given exception, with a \<open>close\<close> that returns normally.
\<close>

definition list_iterator :: "('a, 'c, 'a list \<times> exn option) iterator" where
  "list_iterator =
     \<lparr>it_next = (\<lambda>ambient (xs, err).
         case xs of
           x # xs' \<Rightarrow> Yield x (xs', err)
         | [] \<Rightarrow> (case err of None \<Rightarrow> Return ([], None) | Some e \<Rightarrow> Raise e ([], None))),
      it_close = (\<lambda>(xs, err). Some (None, ([], None)))\<rparr>"

section \<open>flash with the stored sequences as objects\<close>

text \<open>
  \<open>flash\<close> appends to the list object it got from the session and then assigns that object
  to the key again.  Whether the append alone would reach the session depends on the
  session: a dictionary in memory hands out the stored object itself, a session that
  keeps its values in external storage hands out a copy and stores a copy.  To tell the
  two apart the list objects live on a heap here, and the session maps a key to the
  reference of the stored object.
\<close>

datatype backend = InMemory | ExternalStorage

record 'app refs =
  heap :: "nat \<rightharpoonup> flash_entry list"
  fresh :: nat
  session_refs :: "string \<rightharpoonup> nat"
  app_object :: 'app
  sent :: "('app \<times> string \<times> string) list"

definition deref :: "'app refs \<Rightarrow> nat \<Rightarrow> flash_entry list" where
  "deref st a = (case heap st a of None \<Rightarrow> [] | Some xs \<Rightarrow> xs)"

text \<open>A new list object with the given content.\<close>

definition new_list :: "flash_entry list \<Rightarrow> 'app refs \<Rightarrow> nat \<times> 'app refs" where
  "new_list xs st = (fresh st, st\<lparr>heap := (heap st)(fresh st \<mapsto> xs), fresh := Suc (fresh st)\<rparr>)"

text \<open>\<open>session.get(key, default)\<close>, \<open>session[key] = value\<close> and \<open>list.append\<close>.\<close>

definition session_get :: "backend \<Rightarrow> string \<Rightarrow> nat \<Rightarrow> 'app refs \<Rightarrow> nat \<times> 'app refs" where
  "session_get b key dflt st =
     (case session_refs st key of
        None \<Rightarrow> (dflt, st)
      | Some a \<Rightarrow> (case b of InMemory \<Rightarrow> (a, st) | ExternalStorage \<Rightarrow> new_list (deref st a) st))"

definition session_setitem :: "backend \<Rightarrow> string \<Rightarrow> nat \<Rightarrow> 'app refs \<Rightarrow> 'app refs" where
  "session_setitem b key a st =
     (case b of
        InMemory \<Rightarrow> st\<lparr>session_refs := (session_refs st)(key \<mapsto> a)\<rparr>
      | ExternalStorage \<Rightarrow>
          (let (a', st) = new_list (deref st a) st
           in st\<lparr>session_refs := (session_refs st)(key \<mapsto> a')\<rparr>))"

definition list_append :: "nat \<Rightarrow> flash_entry \<Rightarrow> 'app refs \<Rightarrow> 'app refs" where
  "list_append a x st = st\<lparr>heap := (heap st)(a \<mapsto> deref st a @ [x])\<rparr>"

definition flash_refs :: "backend \<Rightarrow> string \<Rightarrow> string \<Rightarrow> 'app refs \<Rightarrow> 'app refs" where
  "flash_refs b message category st =
     (let (dflt, st) = new_list [] st;
          (flashes, st) = session_get b ''_flashes'' dflt st;
          st = list_append flashes (category, message) st;
          st = session_setitem b ''_flashes'' flashes st;
          app = app_object st
      in st\<lparr>sent := sent st @ [(app, message, category)]\<rparr>)"

text \<open>
  The comment in \<open>flash\<close> quotes the implementation it replaced,
  \<^verbatim>\<open>session.setdefault('_flashes', []).append((category, message))\<close>,
  which appends to what \<open>setdefault\<close> returns and never assigns.
\<close>

definition session_setdefault ::
  "backend \<Rightarrow> string \<Rightarrow> nat \<Rightarrow> 'app refs \<Rightarrow> nat \<times> 'app refs" where
  "session_setdefault b key dflt st =
     (case session_refs st key of
        None \<Rightarrow> (dflt, session_setitem b key dflt st)
      | Some a \<Rightarrow> session_get b key dflt st)"

definition flash_original :: "backend \<Rightarrow> string \<Rightarrow> string \<Rightarrow> 'app refs \<Rightarrow> 'app refs" where
  "flash_original b message category st =
     (let (dflt, st) = new_list [] st;
          (flashes, st) = session_setdefault b ''_flashes'' dflt st
      in list_append flashes (category, message) st)"

text \<open>
  What the session holds under each key, and the state of the first model that a state
  with references stands for (\<open>cache\<close> is the per-request cache, which \<open>flash\<close> does not
  touch).  In a well-formed state every stored reference is in use and no two keys share
  an object.
\<close>

definition session_value :: "'app refs \<Rightarrow> string \<rightharpoonup> flash_entry list" where
  "session_value st key = (case session_refs st key of None \<Rightarrow> None | Some a \<Rightarrow> Some (deref st a))"

definition view :: "flash_entry list option \<Rightarrow> 'app refs \<Rightarrow> 'app state" where
  "view cache st =
     \<lparr>session = session_value st, request_ctx_flashes = cache,
      current_app = app_object st, message_flashed = sent st\<rparr>"

definition well_formed :: "'app refs \<Rightarrow> bool" where
  "well_formed st \<longleftrightarrow>
     (\<forall>k a. session_refs st k = Some a \<longrightarrow> a < fresh st) \<and>
     (\<forall>k k' a. session_refs st k = Some a \<and> session_refs st k' = Some a \<longrightarrow> k = k')"

section \<open>Properties of the flash-message queue\<close>

lemma stored_flash: "stored (flash m c st) = stored st @ [(c, m)]"
  by (simp add: flash_def stored_def Let_def)

lemma stored_new_request: "stored (new_request st) = stored st"
  by (simp add: new_request_def stored_def)

lemma stored_flash_each: "stored (flash_each es st) = stored st @ es"
  unfolding flash_each_def
  by (induction es arbitrary: st) (auto simp: stored_flash)

lemma stored_flash_requests: "stored (flash_requests ess st) = stored st @ concat ess"
  unfolding flash_requests_def
  by (induction ess arbitrary: st) (auto simp: stored_flash_each stored_new_request)

lemma filter_in_container:
  "filter_in (Container xs) fs = filter (\<lambda>f. fst f \<in> set xs) fs"
  by (induction fs) simp_all

lemma gfm_unread:
  "request_ctx_flashes st = None \<Longrightarrow>
   get_flashed_messages wc cf st =
     (let fs = (if truthy cf then filter_in cf (stored st) else stored st)
      in if wc then Pairs fs else Messages (map snd fs),
      st\<lparr>session := (session st)(''_flashes'' := None), request_ctx_flashes := Some (stored st)\<rparr>)"
  by (cases "session st ''_flashes''")
     (simp_all add: get_flashed_messages_def stored_def Let_def fun_upd_idem)

lemma gfm_cached:
  "request_ctx_flashes st = Some fs \<Longrightarrow>
   get_flashed_messages wc cf st =
     (let fs = (if truthy cf then filter_in cf fs else fs)
      in if wc then Pairs fs else Messages (map snd fs), st)"
  by (simp add: get_flashed_messages_def Let_def)

lemma readable_after_read:
  "request_ctx_flashes (snd (get_flashed_messages wc cf st)) = Some (readable st)"
  by (cases "request_ctx_flashes st")
     (simp_all add: gfm_unread gfm_cached readable_def Let_def)

lemma gfm_result:
  "fst (get_flashed_messages wc cf st) =
     (let fs = (if truthy cf then filter_in cf (readable st) else readable st)
      in if wc then Pairs fs else Messages (map snd fs))"
  by (cases "request_ctx_flashes st")
     (simp_all add: gfm_unread gfm_cached readable_def Let_def)

text \<open>
  Claim C1.  Let any number of entries be appended by \<open>flash\<close> in earlier requests, to a
  session that had none.  In the next request the first call of \<open>get_flashed_messages\<close>
  returns all of them in the order in which they were appended (as pairs, or as messages
  without categories) and removes them from the session; a second call in the same
  request returns the same result and changes nothing; and a call in the request after
  that returns the empty list, the session still holding nothing.
\<close>

theorem flash_read_once:
  assumes "session st0 ''_flashes'' = None"
  shows "let st1 = new_request (flash_requests ess st0);
             (r1, st2) = get_flashed_messages wc (Container []) st1;
             (r2, st3) = get_flashed_messages wc (Container []) st2;
             (r3, st4) = get_flashed_messages wc (Container []) (new_request st3)
         in r1 = (if wc then Pairs (concat ess) else Messages (map snd (concat ess)))
            \<and> session st2 ''_flashes'' = None
            \<and> r2 = r1 \<and> st3 = st2
            \<and> r3 = (if wc then Pairs [] else Messages [])
            \<and> session st4 ''_flashes'' = None"
proof -
  define st1 where "st1 = new_request (flash_requests ess st0)"
  have unread: "request_ctx_flashes st1 = None"
    by (simp add: st1_def new_request_def)
  have "stored st0 = []"
    using assms by (simp add: stored_def)
  then have all: "stored st1 = concat ess"
    by (simp add: st1_def stored_new_request stored_flash_requests)
  define st2 where
    "st2 = st1\<lparr>session := (session st1)(''_flashes'' := None),
               request_ctx_flashes := Some (concat ess)\<rparr>"
  have first: "get_flashed_messages wc (Container []) st1 =
      (if wc then Pairs (concat ess) else Messages (map snd (concat ess)), st2)"
    using gfm_unread [OF unread, of wc "Container []"] by (simp add: all st2_def)
  have cached: "request_ctx_flashes st2 = Some (concat ess)"
    by (simp add: st2_def)
  have second: "get_flashed_messages wc (Container []) st2 =
      (if wc then Pairs (concat ess) else Messages (map snd (concat ess)), st2)"
    using gfm_cached [OF cached, of wc "Container []"] by simp
  have drained: "session st2 ''_flashes'' = None"
    by (simp add: st2_def)
  have unread3: "request_ctx_flashes (new_request st2) = None"
    by (simp add: new_request_def)
  have empty3: "stored (new_request st2) = []"
    using drained by (simp add: stored_def new_request_def)
  have third: "fst (get_flashed_messages wc (Container []) (new_request st2)) =
      (if wc then Pairs [] else Messages [])"
    "session (snd (get_flashed_messages wc (Container []) (new_request st2))) ''_flashes'' = None"
    using gfm_unread [OF unread3, of wc "Container []"] by (simp_all add: empty3)
  have "let (r1, st2) = get_flashed_messages wc (Container []) st1;
             (r2, st3) = get_flashed_messages wc (Container []) st2;
             (r3, st4) = get_flashed_messages wc (Container []) (new_request st3)
         in r1 = (if wc then Pairs (concat ess) else Messages (map snd (concat ess)))
            \<and> session st2 ''_flashes'' = None
            \<and> r2 = r1 \<and> st3 = st2
            \<and> r3 = (if wc then Pairs [] else Messages [])
            \<and> session st4 ''_flashes'' = None"
    unfolding first second Let_def prod.case
    using third drained by (simp only: split_beta simp_thms)
  then show ?thesis
    by (simp only: st1_def Let_def)
qed

theorem flash_read_once_witness:
  "session \<lparr>session = Map.empty, request_ctx_flashes = None, current_app = (0::nat),
            message_flashed = []\<rparr> ''_flashes'' = None
   \<and> (let st1 = new_request (flash_requests
                [[(''error'', ''bad input'')], [(''message'', ''saved''), (''info'', ''bye'')]]
                \<lparr>session = Map.empty, request_ctx_flashes = None, current_app = (0::nat),
                 message_flashed = []\<rparr>);
            (r1, st2) = get_flashed_messages True (Container []) st1;
            (r2, st3) = get_flashed_messages True (Container []) st2;
            (r3, st4) = get_flashed_messages True (Container []) (new_request st3)
        in r1 = Pairs [(''error'', ''bad input''), (''message'', ''saved''), (''info'', ''bye'')]
           \<and> session st2 ''_flashes'' = None
           \<and> r2 = r1 \<and> st3 = st2
           \<and> r3 = Pairs []
           \<and> session st4 ''_flashes'' = None)"
  using flash_read_once [of "\<lparr>session = Map.empty, request_ctx_flashes = None,
      current_app = (0::nat), message_flashed = []\<rparr>"
      "[[(''error'', ''bad input'')], [(''message'', ''saved''), (''info'', ''bye'')]]" True]
  by simp

text \<open>
  Claim C5 as stated does not hold for every non-empty \<open>category_filter\<close> that the declared
  type admits.  The stored sequence has the categories a, b, a and the filter is a
  one-pass iterator over the single category a: the first test takes a from the iterator,
  which is then exhausted, so the second entry of category a is not returned.
\<close>

theorem category_filter_iterator_counterexample:
  "fst (get_flashed_messages True (Iterator [''a''])
        \<lparr>session = [''_flashes'' \<mapsto> [(''a'', ''one''), (''b'', ''two''), (''a'', ''three'')]],
         request_ctx_flashes = None, current_app = (0::nat), message_flashed = []\<rparr>) =
     Pairs [(''a'', ''one'')]
   \<and> fst (get_flashed_messages True (Iterator [''a''])
        \<lparr>session = [''_flashes'' \<mapsto> [(''a'', ''one''), (''b'', ''two''), (''a'', ''three'')]],
         request_ctx_flashes = None, current_app = (0::nat), message_flashed = []\<rparr>) \<noteq>
     Pairs (filter (\<lambda>f. fst f \<in> set [''a''])
        [(''a'', ''one''), (''b'', ''two''), (''a'', ''three'')])"
  by (simp add: get_flashed_messages_def)

text \<open>
  Claim C5, amended.  With a \<open>category_filter\<close> that is a non-empty container of categories
  (a list, a tuple or a set), \<open>get_flashed_messages\<close> returns exactly the entries whose
  category is in the filter (as pairs, or their messages), and these are the entries of
  the sequence read, in their original relative order.  The witness is the sequence with
  categories a, b, a filtered by the list holding a.
\<close>

theorem category_filter_exact:
  assumes "category_filter \<noteq> []"
  shows "fst (get_flashed_messages True (Container category_filter) st) =
           Pairs (filter (\<lambda>f. fst f \<in> set category_filter) (readable st))
         \<and> fst (get_flashed_messages False (Container category_filter) st) =
           Messages (map snd (filter (\<lambda>f. fst f \<in> set category_filter) (readable st)))
         \<and> subseq (filter (\<lambda>f. fst f \<in> set category_filter) (readable st)) (readable st)"
  using assms by (simp add: gfm_result filter_in_container)

theorem category_filter_exact_witness:
  "[''a''] \<noteq> []
   \<and> fst (get_flashed_messages True (Container [''a''])
        \<lparr>session = [''_flashes'' \<mapsto> [(''a'', ''one''), (''b'', ''two''), (''a'', ''three'')]],
         request_ctx_flashes = None, current_app = (0::nat), message_flashed = []\<rparr>) =
      Pairs [(''a'', ''one''), (''a'', ''three'')]
   \<and> fst (get_flashed_messages False (Container [''a''])
        \<lparr>session = [''_flashes'' \<mapsto> [(''a'', ''one''), (''b'', ''two''), (''a'', ''three'')]],
         request_ctx_flashes = None, current_app = (0::nat), message_flashed = []\<rparr>) =
      Messages [''one'', ''three'']"
  using category_filter_exact [of "[''a'']"
      "\<lparr>session = [''_flashes'' \<mapsto> [(''a'', ''one''), (''b'', ''two''), (''a'', ''three'')]],
        request_ctx_flashes = None, current_app = (0::nat), message_flashed = []\<rparr>"]
  by (simp add: readable_def stored_def)

text \<open>
  Claim C10.  Whatever the arguments of a call of \<open>get_flashed_messages\<close>, the per-request
  cache holds the whole sequence afterwards, not the filtered one: a later call in the
  same request returns what it would have returned had it come first, and a later call
  with categories and without a filter returns every entry.
\<close>

theorem cache_holds_all:
  "request_ctx_flashes (snd (get_flashed_messages wc1 cf1 st)) = Some (readable st)
   \<and> fst (get_flashed_messages wc2 cf2 (snd (get_flashed_messages wc1 cf1 st))) =
     fst (get_flashed_messages wc2 cf2 st)
   \<and> fst (get_flashed_messages True (Container []) (snd (get_flashed_messages wc1 cf1 st))) =
     Pairs (readable st)"
  by (simp add: gfm_result readable_after_read readable_def)

theorem cache_holds_all_witness:
  "fst (get_flashed_messages True (Container [])
     (snd (get_flashed_messages False (Container [''a''])
        \<lparr>session = [''_flashes'' \<mapsto> [(''a'', ''one''), (''b'', ''two''), (''a'', ''three'')]],
         request_ctx_flashes = None, current_app = (0::nat), message_flashed = []\<rparr>))) =
   Pairs [(''a'', ''one''), (''b'', ''two''), (''a'', ''three'')]"
  using cache_holds_all [of False "Container [''a'']"
      "\<lparr>session = [''_flashes'' \<mapsto> [(''a'', ''one''), (''b'', ''two''), (''a'', ''three'')]],
        request_ctx_flashes = None, current_app = (0::nat), message_flashed = []\<rparr>" True "Container []"]
  by (simp add: readable_def stored_def get_flashed_messages_def)

section \<open>Properties of the environment flags\<close>

lemma lower_char_preimage:
  "lower_char c = CHR ''0'' \<longleftrightarrow> c = CHR ''0''"
  "lower_char c = CHR ''n'' \<longleftrightarrow> c \<in> set ''nN''"
  "lower_char c = CHR ''o'' \<longleftrightarrow> c \<in> set ''oO''"
  "lower_char c = CHR ''f'' \<longleftrightarrow> c \<in> set ''fF''"
  "lower_char c = CHR ''a'' \<longleftrightarrow> c \<in> set ''aA''"
  "lower_char c = CHR ''l'' \<longleftrightarrow> c \<in> set ''lL''"
  "lower_char c = CHR ''s'' \<longleftrightarrow> c \<in> set ''sS''"
  "lower_char c = CHR ''e'' \<longleftrightarrow> c \<in> set ''eE''"
  by (auto simp: lower_char_def split: if_splits)

lemma lower_eq_iff: "lower v = w \<longleftrightarrow> list_all2 (\<lambda>c d. lower_char c = d) v w"
proof -
  have "lower v = w \<longleftrightarrow> list_all2 (=) (map lower_char v) w"
    by (simp add: lower_def list.rel_eq)
  then show ?thesis
    by (simp add: list_all2_map1)
qed

lemma lower_matches:
  "lower val = ''0'' \<longleftrightarrow> val = ''0''"
  "lower val = ''no'' \<longleftrightarrow> list_all2 (\<lambda>c cs. c \<in> set cs) val [''nN'', ''oO'']"
  "lower val = ''false'' \<longleftrightarrow>
     list_all2 (\<lambda>c cs. c \<in> set cs) val [''fF'', ''aA'', ''lL'', ''sS'', ''eE'']"
  unfolding lower_eq_iff
  by (auto simp: list_all2_Cons2 lower_char_preimage)

text \<open>
  Claim C9.  \<open>get_debug_flag\<close> is false when \<open>FLASK_DEBUG\<close> is unset or empty, and otherwise
  true exactly when the lower-cased value is none of 0, false, no.  \<open>get_load_dotenv\<close>
  returns its default when \<open>FLASK_SKIP_DOTENV\<close> is unset or empty, and otherwise is true
  exactly when the lower-cased value is one of 0, false, no.  The match ignores case: the
  values whose lower-cased form is in the set are 0 and the spellings of false and no
  with each letter in either case.
\<close>

theorem env_flags:
  "((environ ''FLASK_DEBUG'' = None \<or> environ ''FLASK_DEBUG'' = Some []) \<longrightarrow>
      \<not> get_debug_flag environ)
   \<and> (environ ''FLASK_DEBUG'' = Some val \<and> val \<noteq> [] \<longrightarrow>
      (get_debug_flag environ \<longleftrightarrow> lower val \<notin> {''0'', ''false'', ''no''}))
   \<and> ((environ ''FLASK_SKIP_DOTENV'' = None \<or> environ ''FLASK_SKIP_DOTENV'' = Some []) \<longrightarrow>
      get_load_dotenv dflt environ = dflt)
   \<and> (environ ''FLASK_SKIP_DOTENV'' = Some val' \<and> val' \<noteq> [] \<longrightarrow>
      (get_load_dotenv dflt environ \<longleftrightarrow> lower val' \<in> {''0'', ''false'', ''no''}))
   \<and> (lower v \<in> {''0'', ''false'', ''no''} \<longleftrightarrow>
        v = ''0''
        \<or> list_all2 (\<lambda>c cs. c \<in> set cs) v [''fF'', ''aA'', ''lL'', ''sS'', ''eE'']
        \<or> list_all2 (\<lambda>c cs. c \<in> set cs) v [''nN'', ''oO''])"
proof -
  have "lower v \<in> {''0'', ''false'', ''no''} \<longleftrightarrow>
        v = ''0''
        \<or> list_all2 (\<lambda>c cs. c \<in> set cs) v [''fF'', ''aA'', ''lL'', ''sS'', ''eE'']
        \<or> list_all2 (\<lambda>c cs. c \<in> set cs) v [''nN'', ''oO'']"
    using lower_matches [of v] by blast
  moreover have "(environ ''FLASK_DEBUG'' = None \<or> environ ''FLASK_DEBUG'' = Some []) \<longrightarrow>
      \<not> get_debug_flag environ"
    by (auto simp: get_debug_flag_def)
  moreover have "environ ''FLASK_DEBUG'' = Some val \<and> val \<noteq> [] \<longrightarrow>
      (get_debug_flag environ \<longleftrightarrow> lower val \<notin> {''0'', ''false'', ''no''})"
    by (auto simp: get_debug_flag_def)
  moreover have "(environ ''FLASK_SKIP_DOTENV'' = None \<or> environ ''FLASK_SKIP_DOTENV'' = Some [])
      \<longrightarrow> get_load_dotenv dflt environ = dflt"
    by (auto simp: get_load_dotenv_def)
  moreover have "environ ''FLASK_SKIP_DOTENV'' = Some val' \<and> val' \<noteq> [] \<longrightarrow>
      (get_load_dotenv dflt environ \<longleftrightarrow> lower val' \<in> {''0'', ''false'', ''no''})"
    by (auto simp: get_load_dotenv_def)
  ultimately show ?thesis
    by blast
qed

theorem env_flags_witness:
  "get_debug_flag [''FLASK_DEBUG'' \<mapsto> ''False'', ''FLASK_SKIP_DOTENV'' \<mapsto> ''NO''] = False
   \<and> get_load_dotenv False [''FLASK_DEBUG'' \<mapsto> ''False'', ''FLASK_SKIP_DOTENV'' \<mapsto> ''NO''] = True
   \<and> lower ''False'' = ''false'' \<and> lower ''NO'' = ''no''"
  using env_flags [of "[''FLASK_DEBUG'' \<mapsto> ''False'', ''FLASK_SKIP_DOTENV'' \<mapsto> ''NO'']"
      "''False''" False "''NO''" "''False''"]
  by (simp add: lower_def lower_char_def)

section \<open>Properties of root-path discovery\<close>

text \<open>
  Claim C7.  For the name of a module that is in \<open>sys.modules\<close> and has a file,
  \<open>get_root_path\<close> returns the directory of the absolute path of that file.  For a name
  with no module in \<open>sys.modules\<close> and no loader (\<open>find_spec\<close> returns \<open>None\<close> or a spec
  without a loader, or raises \<open>ImportError\<close> or \<open>ValueError\<close>) it returns the current working
  directory.
\<close>

theorem root_path:
  "(sys_modules env import_name = Some (AttrPath file) \<longrightarrow>
      get_root_path env import_name = Inr (dirname env (abspath env file)))
   \<and> (sys_modules env import_name = None
        \<and> (find_spec env import_name = Inr None
           \<or> find_spec env import_name = Inr (Some None)
           \<or> (\<exists>msg. find_spec env import_name = Inl (ImportError msg))
           \<or> (\<exists>msg. find_spec env import_name = Inl (ValueError msg))) \<longrightarrow>
      get_root_path env import_name = Inr (getcwd env))"
  by (auto simp: get_root_path_def find_loader_def module_file_def)

theorem root_path_witness:
  "get_root_path
     \<lparr>sys_modules = [''app'' \<mapsto> AttrPath ''/srv/app/__init__.py''],
      find_spec = (\<lambda>name. Inr None),
      import_module = (\<lambda>name. Inl (ImportError name)),
      getcwd = ''/home/user'',
      abspath = (\<lambda>p. p),
      dirname = (\<lambda>p. rev (tl (dropWhile (\<lambda>c. c \<noteq> CHR ''/'') (rev p))))\<rparr> ''app''
     = Inr ''/srv/app''
   \<and> get_root_path
     \<lparr>sys_modules = [''app'' \<mapsto> AttrPath ''/srv/app/__init__.py''],
      find_spec = (\<lambda>name. Inr None),
      import_module = (\<lambda>name. Inl (ImportError name)),
      getcwd = ''/home/user'',
      abspath = (\<lambda>p. p),
      dirname = (\<lambda>p. rev (tl (dropWhile (\<lambda>c. c \<noteq> CHR ''/'') (rev p))))\<rparr> ''missing''
     = Inr ''/home/user''"
  using root_path [of "\<lparr>sys_modules = [''app'' \<mapsto> AttrPath ''/srv/app/__init__.py''],
      find_spec = (\<lambda>name. Inr None),
      import_module = (\<lambda>name. Inl (ImportError name)),
      getcwd = ''/home/user'',
      abspath = (\<lambda>p. p),
      dirname = (\<lambda>p. rev (tl (dropWhile (\<lambda>c. c \<noteq> CHR ''/'') (rev p))))\<rparr>"
      "''app''" "''/srv/app/__init__.py''"]
    root_path [of "\<lparr>sys_modules = [''app'' \<mapsto> AttrPath ''/srv/app/__init__.py''],
      find_spec = (\<lambda>name. Inr None),
      import_module = (\<lambda>name. Inl (ImportError name)),
      getcwd = ''/home/user'',
      abspath = (\<lambda>p. p),
      dirname = (\<lambda>p. rev (tl (dropWhile (\<lambda>c. c \<noteq> CHR ''/'') (rev p))))\<rparr>"
      "''missing''"]
  by simp

section \<open>Properties of the stream wrapper\<close>

lemma cv_request_get_enter: "cv_request_get (ctx_enter ctx w) = Some ctx"
  by (simp add: cv_request_get_def ctx_enter_def)

lemma stream_with_context_active:
  "cv_request_get w = Some ctx \<Longrightarrow>
   stream_with_context ops (Iterable gen) w = (Inr (Wrapped (AtSentinel ctx gen)), ctx_enter ctx w)"
  by (simp add: generator_def generator_next_def)

lemma stream_with_context_inactive:
  "cv_request_get w = None \<Longrightarrow>
   stream_with_context ops (Iterable gen) w = (Inl (RuntimeError no_context), w)"
  by (simp add: generator_def generator_next_def)

lemma leave_try_cases:
  "\<exists>w'. leave_try ops ctx gen exc w = (Return Finished, w')
      \<or> (\<exists>e. leave_try ops ctx gen exc w = (Raise e Finished, w'))"
  by (auto simp: leave_try_def Let_def split: prod.splits option.splits)

lemma consume_suspended:
  "wrapped_g = AtSentinel ctx gen \<or> wrapped_g = Delegating ctx gen \<Longrightarrow>
   items_of (fst (consume ops n wrapped_g w)) =
     map Some (items_of (consume_underlying ops n (cv_request_get w) gen))
   \<and> length (fst (consume ops n wrapped_g w)) =
     length (consume_underlying ops n (cv_request_get w) gen)"
proof (induction n arbitrary: wrapped_g gen)
  case 0
  then show ?case by (simp add: items_of_def)
next
  case (Suc n)
  have next_is: "generator_next ops wrapped_g w = resume ops ctx gen w"
    using Suc.prems by (auto simp: generator_next_def)
  show ?case
  proof (cases "it_next ops (cv_request_get w) gen")
    case (Yield x gen')
    have step: "generator_next ops wrapped_g w = (Yield (Some x) (Delegating ctx gen'), w)"
      by (simp add: next_is resume_def Yield)
    have IH: "items_of (fst (consume ops n (Delegating ctx gen') w)) =
        map Some (items_of (consume_underlying ops n (cv_request_get w) gen'))
      \<and> length (fst (consume ops n (Delegating ctx gen') w)) =
        length (consume_underlying ops n (cv_request_get w) gen')"
      by (rule Suc.IH) simp
    show ?thesis
      using IH by (simp add: step Yield items_of_def split_beta)
  next
    case (Return gen')
    obtain w' where "resume ops ctx gen w = (Return Finished, w')
        \<or> (\<exists>e. resume ops ctx gen w = (Raise e Finished, w'))"
      using leave_try_cases [of ops ctx gen' None w] by (auto simp: resume_def Return)
    then show ?thesis
      by (auto simp: next_is Return items_of_def)
  next
    case (Raise e gen')
    obtain w' where "resume ops ctx gen w = (Return Finished, w')
        \<or> (\<exists>e. resume ops ctx gen w = (Raise e Finished, w'))"
      using leave_try_cases [of ops ctx gen' "if e = StopIteration then None else Some e" w]
      by (auto simp: resume_def Raise)
    then show ?thesis
      by (auto simp: next_is Raise items_of_def)
  qed
qed

text \<open>
  Claim C2.  Called on an iterable while a request context is active,
  \<open>stream_with_context\<close> returns the wrapped sequence suspended at its sentinel, with the
  context entered once more.  A consumer that asks it for items any number of times gets
  exactly the items that the underlying sequence yields when iterated directly under that
  context, in the same order and as many, and never the sentinel.
\<close>

theorem wrapped_yields_underlying:
  assumes "cv_request_get w = Some ctx"
  shows "stream_with_context ops (Iterable gen) w =
           (Inr (Wrapped (AtSentinel ctx gen)), ctx_enter ctx w)
         \<and> cv_request_get (ctx_enter ctx w) = Some ctx
         \<and> items_of (fst (consume ops n (AtSentinel ctx gen) (ctx_enter ctx w))) =
           map Some (items_of (consume_underlying ops n (Some ctx) gen))
         \<and> length (fst (consume ops n (AtSentinel ctx gen) (ctx_enter ctx w))) =
           length (consume_underlying ops n (Some ctx) gen)
         \<and> None \<notin> set (items_of (fst (consume ops n (AtSentinel ctx gen) (ctx_enter ctx w))))"
proof -
  have "items_of (fst (consume ops n (AtSentinel ctx gen) (ctx_enter ctx w))) =
           map Some (items_of (consume_underlying ops n (Some ctx) gen))
      \<and> length (fst (consume ops n (AtSentinel ctx gen) (ctx_enter ctx w))) =
           length (consume_underlying ops n (Some ctx) gen)"
    using consume_suspended [of "AtSentinel ctx gen" ctx gen ops n "ctx_enter ctx w"]
    by (simp add: cv_request_get_enter)
  moreover from this
  have "None \<notin> set (items_of (fst (consume ops n (AtSentinel ctx gen) (ctx_enter ctx w))))"
    by auto
  ultimately show ?thesis
    using stream_with_context_active [OF assms, of ops gen]
    by (simp add: cv_request_get_enter del: stream_with_context.simps)
qed

theorem wrapped_yields_underlying_witness:
  "cv_request_get \<lparr>cv_request = [''req''], close_calls = 0\<rparr> = Some ''req''
   \<and> stream_with_context list_iterator (Iterable ([''Hello '', ''World'', ''!''], None))
       \<lparr>cv_request = [''req''], close_calls = 0\<rparr> =
     (Inr (Wrapped (AtSentinel ''req'' ([''Hello '', ''World'', ''!''], None))),
      \<lparr>cv_request = [''req'', ''req''], close_calls = 0\<rparr>)
   \<and> fst (consume list_iterator 4 (AtSentinel ''req'' ([''Hello '', ''World'', ''!''], None))
       \<lparr>cv_request = [''req'', ''req''], close_calls = 0\<rparr>) =
     [Item (Some ''Hello ''), Item (Some ''World''), Item (Some ''!''), Exhausted]"
  using wrapped_yields_underlying [of "\<lparr>cv_request = [''req''], close_calls = 0\<rparr>" "''req''"
      list_iterator "([''Hello '', ''World'', ''!''], None)" 4]
  by (simp add: cv_request_get_def ctx_enter_def list_iterator_def generator_next_def resume_def
      leave_try_def call_close_def ctx_exit_def generator_def eval_nat_numeral)

text \<open>
  Claim C3 as stated does not hold: resuming the iteration of the wrapped sequence with no
  request context active raises nothing.  The wrapper is made while the context req is
  active and is then iterated where no context is active; the consumer gets the items a
  and b, and the first step is not the error.
\<close>

theorem resume_unchecked_counterexample:
  "stream_with_context list_iterator
       (Iterable ([''a'', ''b''], None) :: (unit, string list \<times> exn option) wrappable)
       \<lparr>cv_request = [''req''], close_calls = 0\<rparr> =
     (Inr (Wrapped (AtSentinel ''req'' ([''a'', ''b''], None))),
      \<lparr>cv_request = [''req'', ''req''], close_calls = 0\<rparr>)
   \<and> cv_request_get \<lparr>cv_request = ([] :: string list), close_calls = 0\<rparr> = None
   \<and> fst (consume list_iterator 2 (AtSentinel ''req'' ([''a'', ''b''], None))
       \<lparr>cv_request = [], close_calls = 0\<rparr>) =
     [Item (Some ''a''), Item (Some ''b'')]
   \<and> generator_next list_iterator (AtSentinel ''req'' ([''a'', ''b''], None))
       \<lparr>cv_request = [], close_calls = 0\<rparr> \<noteq>
     (Raise (RuntimeError no_context) Finished, \<lparr>cv_request = [], close_calls = 0\<rparr>)"
  by (simp add: cv_request_get_def ctx_enter_def list_iterator_def generator_next_def resume_def
      leave_try_def call_close_def ctx_exit_def generator_def eval_nat_numeral)

text \<open>
  Claim C3, amended.  When no request context is active at the moment the body of the
  wrapped sequence starts to run, it raises a \<open>RuntimeError\<close> whose message says that
  \<open>stream_with_context\<close> can only be used when a request context is active.  The body
  starts on the first \<open>next\<close>, which \<open>stream_with_context\<close> itself performs, so the call
  fails with this error and returns no sequence.
\<close>

theorem no_context_fails:
  assumes "cv_request_get w = None"
  shows "generator_next ops (generator gen) w = (Raise (RuntimeError no_context) Finished, w)
         \<and> stream_with_context ops (Iterable gen :: ('x, 'g) wrappable) w =
           (Inl (RuntimeError no_context), w)
         \<and> sublist ''can only be used when a request context is active'' no_context"
proof -
  have "no_context = ([CHR 0x27] @ ''stream_with_context'' @ [CHR 0x27] @ '' '')
      @ ''can only be used when a request context is active''
      @ '', such as in a view function.''"
    by (simp add: no_context_def)
  then have "sublist ''can only be used when a request context is active'' no_context"
    unfolding sublist_def by blast
  moreover have "generator_next ops (generator gen) w =
      (Raise (RuntimeError no_context) Finished, w)"
    using assms by (simp add: generator_def generator_next_def)
  ultimately show ?thesis
    using stream_with_context_inactive [OF assms, of ops gen] by blast
qed

theorem no_context_fails_witness:
  "cv_request_get \<lparr>cv_request = ([] :: string list), close_calls = 0\<rparr> = None
   \<and> stream_with_context list_iterator
       (Iterable ([''Hello''], None) :: (unit, string list \<times> exn option) wrappable)
       \<lparr>cv_request = ([] :: string list), close_calls = 0\<rparr> =
     (Inl (RuntimeError no_context), \<lparr>cv_request = [], close_calls = 0\<rparr>)"
  using no_context_fails [of "\<lparr>cv_request = ([] :: string list), close_calls = 0\<rparr>"
      list_iterator "([''Hello''], None)", where ?'x = unit]
  by (simp add: cv_request_get_def del: stream_with_context.simps)

text \<open>
  Claim C4 as stated does not hold: the hook is not invoked exactly once on every exit
  path.  The wrapper is made over an iterator of two items that has \<open>close\<close>, the consumer
  takes one item and abandons the wrapper with \<open>close\<close>; the underlying \<open>close\<close> has then
  been invoked twice, once by the delegation and once by the \<open>finally\<close> block.
\<close>

theorem close_twice_counterexample:
  "stream_with_context list_iterator (Iterable ([''a'', ''b''], None))
       \<lparr>cv_request = [''req''], close_calls = 0\<rparr> =
     (Inr (Wrapped (AtSentinel ''req'' ([''a'', ''b''], None))),
      \<lparr>cv_request = [''req'', ''req''], close_calls = 0\<rparr>)
   \<and> consume list_iterator 1 (AtSentinel ''req'' ([''a'', ''b''], None))
       \<lparr>cv_request = [''req'', ''req''], close_calls = 0\<rparr> =
     ([Item (Some ''a'')], Delegating ''req'' ([''b''], None),
      \<lparr>cv_request = [''req'', ''req''], close_calls = 0\<rparr>)
   \<and> generator_close list_iterator (Delegating ''req'' ([''b''], None))
       \<lparr>cv_request = [''req'', ''req''], close_calls = 0\<rparr> =
     (None, Finished, \<lparr>cv_request = [''req''], close_calls = 2\<rparr>)
   \<and> close_calls (snd (snd (generator_close list_iterator (Delegating ''req'' ([''b''], None))
       \<lparr>cv_request = [''req'', ''req''], close_calls = 0\<rparr>))) \<noteq> 1"
  by (simp add: cv_request_get_def ctx_enter_def list_iterator_def generator_next_def resume_def
      generator_close_def leave_body_def
      leave_try_def call_close_def ctx_exit_def generator_def eval_nat_numeral)

lemma leave_try_hook:
  "it_close ops gen \<noteq> None \<Longrightarrow>
   close_calls (snd (leave_try ops ctx gen exc w)) = Suc (close_calls w)
   \<and> cv_request (snd (leave_try ops ctx gen exc w)) = tl (cv_request w)
   \<and> (\<exists>e. fst (leave_try ops ctx gen exc w) = Return Finished
          \<or> fst (leave_try ops ctx gen exc w) = Raise e Finished)"
  by (auto simp: leave_try_def call_close_def ctx_exit_def Let_def split: option.splits)

lemma generator_close_delegating:
  "\<forall>g. it_close ops g \<noteq> None \<Longrightarrow>
   close_calls (snd (snd (generator_close ops (Delegating ctx gen) w))) = close_calls w + 2
   \<and> cv_request (snd (snd (generator_close ops (Delegating ctx gen) w))) = tl (cv_request w)
   \<and> fst (snd (generator_close ops (Delegating ctx gen) w)) = Finished"
proof -
  assume hook: "\<forall>g. it_close ops g \<noteq> None"
  obtain r1 g1 where c1: "it_close ops gen = Some (r1, g1)"
    using hook by (metis option.exhaust surj_pair)
  obtain r2 g2 where c2: "it_close ops g1 = Some (r2, g2)"
    using hook by (metis option.exhaust surj_pair)
  show ?thesis
    by (simp add: generator_close_def call_close_def c1 c2 ctx_exit_def Let_def)
qed

text \<open>
  Claim C4, amended.  For an underlying sequence that has \<open>close\<close> in every state, and a
  wrapper suspended at the sentinel or inside the delegation: when the underlying
  sequence is exhausted, and when it raises, \<open>close\<close> is invoked exactly once, the context
  entered by the wrapper is left and the wrapper is finished; while it yields, nothing is
  closed or left.  When the consumer abandons the wrapper inside the delegation, \<open>close\<close>
  is invoked twice and the context is left; abandoned at the sentinel, the context is
  left as well.  A finished wrapper does nothing more.
\<close>

theorem close_on_exit:
  assumes hook: "\<forall>g. it_close ops g \<noteq> None"
    and suspended: "wrapped_g = AtSentinel ctx gen \<or> wrapped_g = Delegating ctx gen"
  shows "(it_next ops (cv_request_get w) gen = Return gen' \<longrightarrow>
            close_calls (snd (generator_next ops wrapped_g w)) = Suc (close_calls w)
            \<and> cv_request (snd (generator_next ops wrapped_g w)) = tl (cv_request w)
            \<and> (\<exists>e. fst (generator_next ops wrapped_g w) = Return Finished
                   \<or> fst (generator_next ops wrapped_g w) = Raise e Finished))
         \<and> (it_next ops (cv_request_get w) gen = Raise e gen' \<longrightarrow>
            close_calls (snd (generator_next ops wrapped_g w)) = Suc (close_calls w)
            \<and> cv_request (snd (generator_next ops wrapped_g w)) = tl (cv_request w)
            \<and> (\<exists>e. fst (generator_next ops wrapped_g w) = Return Finished
                   \<or> fst (generator_next ops wrapped_g w) = Raise e Finished))
         \<and> (it_next ops (cv_request_get w) gen = Yield x gen' \<longrightarrow>
            generator_next ops wrapped_g w = (Yield (Some x) (Delegating ctx gen'), w))
         \<and> close_calls (snd (snd (generator_close ops (Delegating ctx gen) w))) =
            close_calls w + 2
         \<and> cv_request (snd (snd (generator_close ops (Delegating ctx gen) w))) =
            tl (cv_request w)
         \<and> fst (snd (generator_close ops (Delegating ctx gen) w)) = Finished
         \<and> cv_request (snd (snd (generator_close ops (AtSentinel ctx gen) w))) =
            tl (cv_request w)
         \<and> fst (snd (generator_close ops (AtSentinel ctx gen) w)) = Finished
         \<and> generator_next ops Finished w = (Return Finished, w)
         \<and> generator_close ops Finished w = (None, Finished, w)"
proof -
  have next_is: "generator_next ops wrapped_g w = resume ops ctx gen w"
    using suspended by (auto simp: generator_next_def)
  have closes: "it_close ops gen' \<noteq> None"
    using hook by simp
  have completion: "it_next ops (cv_request_get w) gen = Return gen' \<longrightarrow>
            close_calls (snd (generator_next ops wrapped_g w)) = Suc (close_calls w)
            \<and> cv_request (snd (generator_next ops wrapped_g w)) = tl (cv_request w)
            \<and> (\<exists>e. fst (generator_next ops wrapped_g w) = Return Finished
                   \<or> fst (generator_next ops wrapped_g w) = Raise e Finished)"
    using leave_try_hook [OF closes, of ctx None w]
    by (simp add: next_is resume_def)
  have failure: "it_next ops (cv_request_get w) gen = Raise e gen' \<longrightarrow>
            close_calls (snd (generator_next ops wrapped_g w)) = Suc (close_calls w)
            \<and> cv_request (snd (generator_next ops wrapped_g w)) = tl (cv_request w)
            \<and> (\<exists>e. fst (generator_next ops wrapped_g w) = Return Finished
                   \<or> fst (generator_next ops wrapped_g w) = Raise e Finished)"
    using leave_try_hook [OF closes, of ctx "if e = StopIteration then None else Some e" w]
    by (simp add: next_is resume_def)
  have item: "it_next ops (cv_request_get w) gen = Yield x gen' \<longrightarrow>
            generator_next ops wrapped_g w = (Yield (Some x) (Delegating ctx gen'), w)"
    by (simp add: next_is resume_def)
  have sentinel: "cv_request (snd (snd (generator_close ops (AtSentinel ctx gen) w))) =
            tl (cv_request w)
         \<and> fst (snd (generator_close ops (AtSentinel ctx gen) w)) = Finished"
    by (simp add: generator_close_def ctx_exit_def)
  have finished: "generator_next ops Finished w = (Return Finished, w)
         \<and> generator_close ops Finished w = (None, Finished, w)"
    by (simp add: generator_next_def generator_close_def)
  show ?thesis
    using completion failure item generator_close_delegating [OF hook, of ctx gen w]
      sentinel finished
    by blast
qed

theorem close_on_exit_witness:
  "(\<forall>g. it_close (list_iterator :: (string, string, string list \<times> exn option) iterator) g \<noteq> None)
   \<and> generator_next list_iterator (Delegating ''req'' ([], None))
       \<lparr>cv_request = [''req'', ''req''], close_calls = 0\<rparr> =
     (Return Finished, \<lparr>cv_request = [''req''], close_calls = 1\<rparr>)
   \<and> generator_next list_iterator (Delegating ''req'' ([], Some (Exception ''boom'')))
       \<lparr>cv_request = [''req'', ''req''], close_calls = 0\<rparr> =
     (Raise (Exception ''boom'') Finished, \<lparr>cv_request = [''req''], close_calls = 1\<rparr>)
   \<and> generator_close list_iterator (Delegating ''req'' ([''b''], None))
       \<lparr>cv_request = [''req'', ''req''], close_calls = 0\<rparr> =
     (None, Finished, \<lparr>cv_request = [''req''], close_calls = 2\<rparr>)
   \<and> cv_request (snd (snd (generator_close list_iterator (AtSentinel ''req'' ([''b''], None))
       \<lparr>cv_request = [''req'', ''req''], close_calls = 0\<rparr>))) = [''req'']"
  using close_on_exit [of list_iterator "Delegating ''req'' ([], None)" "''req''"
      "([], None)" "\<lparr>cv_request = [''req'', ''req''], close_calls = 0\<rparr>"
      "([], None)" "Exception ''boom''" "''b''"]
    close_on_exit [of list_iterator "Delegating ''req'' ([], Some (Exception ''boom''))" "''req''"
      "([], Some (Exception ''boom''))" "\<lparr>cv_request = [''req'', ''req''], close_calls = 0\<rparr>"
      "([], None)" "Exception ''boom''" "''b''"]
    close_on_exit [of list_iterator "Delegating ''req'' ([''b''], None)" "''req''"
      "([''b''], None)" "\<lparr>cv_request = [''req'', ''req''], close_calls = 0\<rparr>"
      "([], None)" "Exception ''boom''" "''b''"]
  by (simp add: cv_request_get_def list_iterator_def generator_next_def resume_def
      generator_close_def leave_body_def leave_try_def call_close_def ctx_exit_def
      split_beta eval_nat_numeral)

text \<open>
  Claim C6.  Given a function instead of an iterable, \<open>stream_with_context\<close> returns a new
  function of the same name and the same arguments and does nothing else.  Calling the new
  function calls the original one on the same arguments and returns the result of
  \<open>stream_with_context\<close> on the sequence obtained (an error of the original function is
  passed on); under an active request context this is the wrapped sequence, whose items
  are those of the sequence obtained.
\<close>

theorem decorator_wraps:
  "\<exists>decorator.
     stream_with_context (ops :: ('a, 'c, 'g) iterator)
         (Callable name generator_or_function :: ('x, 'g) wrappable) w =
       (Inr (Decorator name decorator), w)
     \<and> (\<forall>args w'. decorator args w' =
          (case generator_or_function args of
             Inl e \<Rightarrow> (Inl e, w')
           | Inr gen \<Rightarrow> stream_with_context ops (Iterable gen) w'))
     \<and> (\<forall>args gen ctx w' n.
          generator_or_function args = Inr gen \<and> cv_request_get w' = Some ctx \<longrightarrow>
            decorator args w' = (Inr (Wrapped (AtSentinel ctx gen)), ctx_enter ctx w')
            \<and> items_of (fst (consume ops n (AtSentinel ctx gen) (ctx_enter ctx w'))) =
              map Some (items_of (consume_underlying ops n (Some ctx) gen)))"
proof -
  define decorator :: "'x \<Rightarrow> 'c world \<Rightarrow> (exn + ('x, 'c, 'g) wrapped) \<times> 'c world"
    where "decorator = (\<lambda>args w'. case generator_or_function args of
             Inl e \<Rightarrow> (Inl e, w')
           | Inr gen \<Rightarrow> stream_with_context ops (Iterable gen) w')"
  have made: "stream_with_context ops (Callable name generator_or_function) w =
       (Inr (Decorator name decorator), w)"
    by (simp add: decorator_def)
  have call: "\<forall>args w'. decorator args w' =
          (case generator_or_function args of
             Inl e \<Rightarrow> (Inl e, w')
           | Inr gen \<Rightarrow> stream_with_context ops (Iterable gen) w')"
    by (simp add: decorator_def)
  have wraps: "\<forall>args gen ctx w' n.
          generator_or_function args = Inr gen \<and> cv_request_get w' = Some ctx \<longrightarrow>
            decorator args w' = (Inr (Wrapped (AtSentinel ctx gen)), ctx_enter ctx w')
            \<and> items_of (fst (consume ops n (AtSentinel ctx gen) (ctx_enter ctx w'))) =
              map Some (items_of (consume_underlying ops n (Some ctx) gen))"
  proof (intro allI impI, elim conjE)
    fix args :: 'x and gen :: 'g and ctx :: 'c and w' :: "'c world" and n :: nat
    assume f: "generator_or_function args = Inr gen" and active: "cv_request_get w' = Some ctx"
    have "decorator args w' = (Inr (Wrapped (AtSentinel ctx gen)), ctx_enter ctx w')"
      using stream_with_context_active [OF active, of ops gen]
      by (simp add: decorator_def f del: stream_with_context.simps)
    moreover have "items_of (fst (consume ops n (AtSentinel ctx gen) (ctx_enter ctx w'))) =
              map Some (items_of (consume_underlying ops n (Some ctx) gen))"
      using consume_suspended [of "AtSentinel ctx gen" ctx gen ops n "ctx_enter ctx w'"]
      by (simp add: cv_request_get_enter)
    ultimately show "decorator args w' = (Inr (Wrapped (AtSentinel ctx gen)), ctx_enter ctx w')
            \<and> items_of (fst (consume ops n (AtSentinel ctx gen) (ctx_enter ctx w'))) =
              map Some (items_of (consume_underlying ops n (Some ctx) gen))"
      by simp
  qed
  show ?thesis
    using made call wraps by blast
qed

theorem decorator_wraps_witness:
  "(case stream_with_context (list_iterator :: (string, string, string list \<times> exn option) iterator)
          (Callable ''generate'' (\<lambda>who :: string. Inr ([''Hello '', who, ''!''], None)))
          \<lparr>cv_request = [''req''], close_calls = 0\<rparr> of
      (Inr (Decorator name decorator), w) \<Rightarrow>
        name = ''generate'' \<and> w = \<lparr>cv_request = [''req''], close_calls = 0\<rparr>
        \<and> decorator ''World'' \<lparr>cv_request = [''req''], close_calls = 0\<rparr> =
          (Inr (Wrapped (AtSentinel ''req'' ([''Hello '', ''World'', ''!''], None))),
           \<lparr>cv_request = [''req'', ''req''], close_calls = 0\<rparr>)
    | _ \<Rightarrow> False)"
  using decorator_wraps [of "list_iterator :: (string, string, string list \<times> exn option) iterator"
      "''generate''" "\<lambda>who :: string. Inr ([''Hello '', who, ''!''], None)"
      "\<lparr>cv_request = [''req''], close_calls = 0\<rparr>"]
  by (auto simp: cv_request_get_def ctx_enter_def generator_def generator_next_def)

section \<open>Properties of flash on stored objects\<close>

text \<open>
  Claim C8.  \<open>flash\<close> stores its entry by read-modify-write: it reads the stored sequence
  (empty when there is none), appends the pair of category and message, and assigns the
  sequence to the reserved key again.  So on a session that hands out the stored object
  and on one that hands out and stores copies alike, the session afterwards holds the old
  sequence followed by the new pair under the reserved key and is unchanged elsewhere,
  which is what the value-level \<open>flash\<close> computes; and one notification is sent, carrying
  the application object, the message and the category.  The replaced implementation,
  which only appended to what the session handed out, leaves the stored sequence of a
  copying session as it was.
\<close>

theorem flash_read_modify_write:
  assumes "well_formed st"
  shows "view cache (flash_refs b message category st) = flash message category (view cache st)
         \<and> session_value (flash_refs b message category st) =
           (session_value st)(''_flashes'' \<mapsto>
              (case session_value st ''_flashes'' of None \<Rightarrow> [] | Some fs \<Rightarrow> fs)
              @ [(category, message)])
         \<and> sent (flash_refs b message category st) =
           sent st @ [(app_object st, message, category)]
         \<and> well_formed (flash_refs b message category st)
         \<and> session_value (flash_original ExternalStorage message category st) ''_flashes'' =
           Some (case session_value st ''_flashes'' of None \<Rightarrow> [] | Some fs \<Rightarrow> fs)"
proof -
  have inj: "\<And>k k' a. session_refs st k = Some a \<Longrightarrow> session_refs st k' = Some a \<Longrightarrow> k = k'"
    and lt: "\<And>k a. session_refs st k = Some a \<Longrightarrow> a < fresh st"
    using assms by (auto simp: well_formed_def)
  have sv: "session_value (flash_refs b message category st) =
           (session_value st)(''_flashes'' \<mapsto>
              (case session_value st ''_flashes'' of None \<Rightarrow> [] | Some fs \<Rightarrow> fs)
              @ [(category, message)])"
  proof (rule ext)
    fix k
    show "session_value (flash_refs b message category st) k =
           ((session_value st)(''_flashes'' \<mapsto>
              (case session_value st ''_flashes'' of None \<Rightarrow> [] | Some fs \<Rightarrow> fs)
              @ [(category, message)])) k"
      using inj [of k _ "''_flashes''"] lt [of k] lt [of "''_flashes''"]
      by (cases b; cases "session_refs st ''_flashes''"; cases "session_refs st k")
         (auto simp: flash_refs_def new_list_def session_get_def list_append_def
            session_setitem_def session_value_def deref_def Let_def)
  qed
  have sn: "sent (flash_refs b message category st) =
           sent st @ [(app_object st, message, category)]"
    by (cases b; cases "session_refs st ''_flashes''")
       (auto simp: flash_refs_def new_list_def session_get_def list_append_def
            session_setitem_def Let_def)
  have ap: "app_object (flash_refs b message category st) = app_object st"
    by (cases b; cases "session_refs st ''_flashes''")
       (auto simp: flash_refs_def new_list_def session_get_def list_append_def
            session_setitem_def Let_def)
  have vw: "view cache (flash_refs b message category st) = flash message category (view cache st)"
    by (simp add: view_def flash_def sv sn ap Let_def)
  have unused: "\<And>k. session_refs st k \<noteq> Some (fresh st)"
    "\<And>k. session_refs st k \<noteq> Some (Suc (fresh st))"
    "\<And>k. session_refs st k \<noteq> Some (Suc (Suc (fresh st)))"
    using lt by fastforce+
  have wf: "well_formed (flash_refs b message category st)"
    unfolding well_formed_def
    using inj lt unused
    by (cases b; cases "session_refs st ''_flashes''")
       (auto simp: flash_refs_def new_list_def session_get_def list_append_def
            session_setitem_def Let_def less_Suc_eq split: if_splits)
  have original: "session_value (flash_original ExternalStorage message category st) ''_flashes'' =
           Some (case session_value st ''_flashes'' of None \<Rightarrow> [] | Some fs \<Rightarrow> fs)"
    using lt [of "''_flashes''"]
    by (cases "session_refs st ''_flashes''")
       (auto simp: flash_original_def session_setdefault_def new_list_def session_get_def
          list_append_def session_setitem_def session_value_def deref_def Let_def)
  show ?thesis
    using vw sv sn wf original by blast
qed

theorem flash_read_modify_write_witness:
  "well_formed \<lparr>heap = [0 \<mapsto> [(''message'', ''first'')]], fresh = 1,
       session_refs = [''_flashes'' \<mapsto> 0], app_object = ''app'', sent = []\<rparr>
   \<and> session_value (flash_refs ExternalStorage ''second'' ''error''
       \<lparr>heap = [0 \<mapsto> [(''message'', ''first'')]], fresh = 1,
        session_refs = [''_flashes'' \<mapsto> 0], app_object = ''app'', sent = []\<rparr>) ''_flashes'' =
     Some [(''message'', ''first''), (''error'', ''second'')]
   \<and> sent (flash_refs ExternalStorage ''second'' ''error''
       \<lparr>heap = [0 \<mapsto> [(''message'', ''first'')]], fresh = 1,
        session_refs = [''_flashes'' \<mapsto> 0], app_object = ''app'', sent = []\<rparr>) =
     [(''app'', ''second'', ''error'')]
   \<and> session_value (flash_original ExternalStorage ''second'' ''error''
       \<lparr>heap = [0 \<mapsto> [(''message'', ''first'')]], fresh = 1,
        session_refs = [''_flashes'' \<mapsto> 0], app_object = ''app'', sent = []\<rparr>) ''_flashes'' =
     Some [(''message'', ''first'')]"
proof -
  have wf: "well_formed \<lparr>heap = [0 \<mapsto> [(''message'', ''first'')]], fresh = 1,
       session_refs = [''_flashes'' \<mapsto> 0], app_object = ''app'', sent = []\<rparr>"
    by (simp add: well_formed_def)
  show ?thesis
    using wf flash_read_modify_write [OF wf, of None ExternalStorage "''second''" "''error''"]
    by (simp add: session_value_def deref_def)
qed

end
